theory Spec2Isabelle
  imports Main
begin

section \<open>The UVM assembler (src/assembler.py), stage 1: source text to intermediate representation\<close>

text \<open>
  The embedding follows \<^verbatim>\<open>class UVMAssembler\<close> method by method. A Python \<^verbatim>\<open>str\<close> is a
  \<^typ>\<open>string\<close>; the model covers ASCII source text (for a character outside ASCII the
  built-ins \<^verbatim>\<open>strip\<close>, \<^verbatim>\<open>split\<close>, \<^verbatim>\<open>upper\<close> and \<^verbatim>\<open>int\<close> consult the Unicode tables, which
  are not modelled: such a character is here no whitespace, no digit and its own upper
  case). The limit of the interpreter on the number of digits that \<^verbatim>\<open>int\<close> converts is
  modelled at its default, 4300, which the program never changes. Every \<^verbatim>\<open>raise\<close> is a
  value \<open>Inl e\<close>.
\<close>

subsection \<open>The built-ins of \<^verbatim>\<open>str\<close> that the assembler calls\<close>

text \<open>\<^verbatim>\<open>str.isspace\<close> on ASCII: TAB, LF, VT, FF, CR, FS, GS, RS, US and the space.\<close>

definition py_isspace :: "char \<Rightarrow> bool" where
  "py_isspace c \<longleftrightarrow>
     c \<in> set [CHR 0x09, CHR 0x0A, CHR 0x0B, CHR 0x0C, CHR 0x0D,
               CHR 0x1C, CHR 0x1D, CHR 0x1E, CHR 0x1F, CHR 0x20]"

text \<open>\<^verbatim>\<open>s.strip()\<close>: whitespace removed at both ends.\<close>

definition py_strip :: "string \<Rightarrow> string" where
  "py_strip s = rev (dropWhile py_isspace (rev (dropWhile py_isspace s)))"

text \<open>\<^verbatim>\<open>s.startswith(p)\<close>.\<close>

definition py_startswith :: "string \<Rightarrow> string \<Rightarrow> bool" where
  "py_startswith s p \<longleftrightarrow> take (length p) s = p"

text \<open>
  \<^verbatim>\<open>s.split(sep)\<close> for a separator of one character: the pieces between the
  separators, empty pieces kept, so the result always has at least one element.
\<close>

fun py_split_sep :: "char \<Rightarrow> string \<Rightarrow> string list" where
  "py_split_sep sep [] = [[]]"
| "py_split_sep sep (c # cs) =
     (if c = sep then [] # py_split_sep sep cs
      else (case py_split_sep sep cs of
              w # ws \<Rightarrow> (c # w) # ws
            | [] \<Rightarrow> [[c]]))"

text \<open>\<^verbatim>\<open>s.split()\<close>: the maximal runs of characters that are not whitespace.\<close>

function py_split_ws :: "string \<Rightarrow> string list" where
  "py_split_ws [] = []"
| "py_split_ws (c # cs) =
     (if py_isspace c then py_split_ws cs
      else takeWhile (\<lambda>x. \<not> py_isspace x) (c # cs)
             # py_split_ws (dropWhile (\<lambda>x. \<not> py_isspace x) cs))"
  by pat_completeness auto
termination
  by (relation "measure length") (auto simp: le_imp_less_Suc length_dropWhile_le)

text \<open>\<^verbatim>\<open>sep.join(xs)\<close>.\<close>

fun py_join :: "string \<Rightarrow> string list \<Rightarrow> string" where
  "py_join sep [] = []"
| "py_join sep [x] = x"
| "py_join sep (x # y # ys) = x @ sep @ py_join sep (y # ys)"

text \<open>\<^verbatim>\<open>s.upper()\<close> on ASCII: the 26 small letters become capitals.\<close>

definition upper_char :: "char \<Rightarrow> char" where
  "upper_char c =
     (case map_of (zip ''abcdefghijklmnopqrstuvwxyz'' ''ABCDEFGHIJKLMNOPQRSTUVWXYZ'') c of
        Some u \<Rightarrow> u
      | None \<Rightarrow> c)"

definition py_upper :: "string \<Rightarrow> string" where
  "py_upper s = map upper_char s"

subsection \<open>The built-in \<^verbatim>\<open>int(s)\<close> and \<^verbatim>\<open>int(s, 16)\<close>\<close>

text \<open>
  The conversion of CPython (\<^verbatim>\<open>PyLong_FromString\<close>): C whitespace is skipped at both
  ends (TAB, LF, VT, FF, CR and the space; not FS..US, which only \<^verbatim>\<open>str.strip\<close> knows),
  one sign \<^verbatim>\<open>+\<close> or \<^verbatim>\<open>-\<close> is accepted, in base 16 one prefix \<^verbatim>\<open>0x\<close> or \<^verbatim>\<open>0X\<close> with one
  underscore after it, then at least one digit of the base, with single underscores
  allowed between digits. In a base that is not a power of two the literal may have at
  most \<^verbatim>\<open>sys.int_info.default_max_str_digits\<close> = 4300 digits, leading zeros counted,
  underscores, sign and whitespace not; base 16 has no such limit. Anything else is a
  \<^verbatim>\<open>ValueError\<close>, here \<open>None\<close>.
\<close>

definition c_isspace :: "char \<Rightarrow> bool" where
  "c_isspace c \<longleftrightarrow> c \<in> set [CHR 0x09, CHR 0x0A, CHR 0x0B, CHR 0x0C, CHR 0x0D, CHR 0x20]"

text \<open>The value of a digit character: 0..9, then the letters of either case as 10..35.\<close>

definition digit_value :: "char \<Rightarrow> nat option" where
  "digit_value c =
     map_of (zip ''0123456789abcdefghijklmnopqrstuvwxyz'' [0 ..< 36])
       (case map_of (zip ''ABCDEFGHIJKLMNOPQRSTUVWXYZ'' ''abcdefghijklmnopqrstuvwxyz'') c of
          Some l \<Rightarrow> l
        | None \<Rightarrow> c)"

definition is_digit :: "nat \<Rightarrow> char \<Rightarrow> bool" where
  "is_digit base c \<longleftrightarrow> (case digit_value c of Some d \<Rightarrow> d < base | None \<Rightarrow> False)"

text \<open>
  The digit scan: it reads digits and underscores, with the number read so far and the
  previous character; it fails on two underscores in a row and on an underscore at the
  end, and returns the number with the unread rest.
\<close>

fun scan_digits :: "nat \<Rightarrow> nat \<Rightarrow> bool \<Rightarrow> string \<Rightarrow> (nat \<times> string) option" where
  "scan_digits base acc prev_us [] = (if prev_us then None else Some (acc, []))"
| "scan_digits base acc prev_us (c # cs) =
     (if c = CHR ''_'' then (if prev_us then None else scan_digits base acc True cs)
      else (case digit_value c of
              Some d \<Rightarrow>
                if d < base then scan_digits base (acc * base + d) False cs
                else (if prev_us then None else Some (acc, c # cs))
            | None \<Rightarrow> (if prev_us then None else Some (acc, c # cs))))"

definition skip_prefix :: "nat \<Rightarrow> string \<Rightarrow> string" where
  "skip_prefix base s =
     (case s of
        c0 # c1 # r \<Rightarrow>
          if base = 16 \<and> c0 = CHR ''0'' \<and> (c1 = CHR ''x'' \<or> c1 = CHR ''X'')
          then (case r of u # r' \<Rightarrow> if u = CHR ''_'' then r' else r | [] \<Rightarrow> r)
          else s
      | _ \<Rightarrow> s)"

text \<open>
  The limit on the digits of a literal, and the number of digits that the scan reads:
  the digit characters among the leading digits and underscores.
\<close>

definition max_str_digits :: nat where
  "max_str_digits = 4300"

definition count_digits :: "nat \<Rightarrow> string \<Rightarrow> nat" where
  "count_digits base s =
     length (filter (\<lambda>c. c \<noteq> CHR ''_'')
               (takeWhile (\<lambda>c. c = CHR ''_'' \<or> is_digit base c) s))"

definition over_limit :: "nat \<Rightarrow> string \<Rightarrow> bool" where
  "over_limit base s \<longleftrightarrow>
     base \<notin> set [2, 4, 8, 16, 32] \<and> count_digits base s > max_str_digits"

definition py_int :: "nat \<Rightarrow> string \<Rightarrow> int option" where
  "py_int base s =
     (let s1 = dropWhile c_isspace s;
          neg = (case s1 of c # _ \<Rightarrow> c = CHR ''-'' | [] \<Rightarrow> False);
          s2 = (case s1 of c # r \<Rightarrow> if c = CHR ''+'' \<or> c = CHR ''-'' then r else s1 | [] \<Rightarrow> s1);
          s3 = skip_prefix base s2
      in case s3 of
           [] \<Rightarrow> None
         | c # _ \<Rightarrow>
             if c = CHR ''_'' \<or> \<not> is_digit base c then None
             else (case scan_digits base 0 False s3 of
                     None \<Rightarrow> None
                   | Some (n, rest) \<Rightarrow>
                       if over_limit base s3 then None
                       else if dropWhile c_isspace rest = []
                       then Some (if neg then - int n else int n)
                       else None))"

subsection \<open>Errors, parsed instructions, records\<close>

text \<open>
  The exceptions the methods raise. The three arity messages of \<^verbatim>\<open>assemble\<close> are
  fixed texts, one per mnemonic, each naming the mnemonic and the number of arguments it
  requires: \<open>ArityMismatch m n\<close> stands for the text of mnemonic \<open>m\<close>.
  \<open>InvalidNumber b t\<close> is the \<^verbatim>\<open>ValueError\<close> that \<^verbatim>\<open>int\<close> raises on the text \<open>t\<close> in
  base \<open>b\<close>: for a text that is not a literal of the base its message names \<open>b\<close> and
  \<open>t\<close>, for a decimal literal over the digit limit it names the limit and the number
  of digits of \<open>t\<close>. \<open>IndexError\<close> is what
  \<^verbatim>\<open>parts[0]\<close> raises on an empty list; \<open>UnboundLocalError\<close> is what reading the local
  \<^verbatim>\<open>command\<close> raises when no branch of the \<^verbatim>\<open>if/elif\<close> chain has assigned it.
\<close>

datatype error =
    SyntaxError nat string
  | UnknownMnemonic string
  | ArityMismatch string nat
  | InvalidNumber nat string
  | IndexError
  | UnboundLocalError

type_synonym parsed = "string \<times> string list"

text \<open>An IR record is a Python dict with the keys in insertion order.\<close>

type_synonym ir = "(string \<times> int) list"

record assembler =
  mnemonics :: "(string \<times> int) list"

definition UVMAssembler_init :: assembler where
  "UVMAssembler_init =
     \<lparr>mnemonics = [(''LOAD_CONST'', 20), (''STORE'', 12), (''BINARY_OP'', 19)]\<rparr>"

subsection \<open>\<^verbatim>\<open>parse_line\<close> and \<^verbatim>\<open>parse_source\<close>\<close>

definition parse_line :: "string \<Rightarrow> error + parsed option" where
  "parse_line line0 =
     (let line = py_strip line0 in
      if line = [] \<or> py_startswith line '';'' then Inr None
      else
        let line = (if CHR '';'' \<in> set line
                    then py_strip (case py_split_sep (CHR '';'') line of p # _ \<Rightarrow> p | [] \<Rightarrow> [])
                    else line);
            parts = py_split_ws line
        in case parts of
             [] \<Rightarrow> Inl IndexError
           | p0 # ps \<Rightarrow>
               let mnemonic = py_upper p0;
                   args = (if length parts > 1
                           then map py_strip (py_split_sep (CHR '','') (py_join '' '' ps))
                           else [])
               in Inr (Some (mnemonic, args)))"

text \<open>
  The loop of \<^verbatim>\<open>parse_source\<close> over the numbered lines; any exception of \<^verbatim>\<open>parse_line\<close>
  becomes a \<^verbatim>\<open>SyntaxError\<close> with the line number and the line.
\<close>

fun parse_lines :: "nat \<Rightarrow> string list \<Rightarrow> parsed list \<Rightarrow> error + parsed list" where
  "parse_lines line_num [] commands = Inr commands"
| "parse_lines line_num (line # lines) commands =
     (case parse_line line of
        Inl e \<Rightarrow> Inl (SyntaxError line_num line)
      | Inr None \<Rightarrow> parse_lines (Suc line_num) lines commands
      | Inr (Some parsed) \<Rightarrow> parse_lines (Suc line_num) lines (commands @ [parsed]))"

definition parse_source :: "string \<Rightarrow> error + parsed list" where
  "parse_source source_code = parse_lines 1 (py_split_sep (CHR 0x0A) source_code) []"

subsection \<open>\<^verbatim>\<open>_parse_number\<close> and \<^verbatim>\<open>assemble\<close>\<close>

definition parse_number :: "string \<Rightarrow> error + int" where
  "parse_number num_str0 =
     (let num_str = py_strip num_str0 in
      if py_startswith num_str ''0x''
      then (case py_int 16 (drop 2 num_str) of
              Some n \<Rightarrow> Inr n
            | None \<Rightarrow> Inl (InvalidNumber 16 (drop 2 num_str)))
      else (case py_int 10 num_str of
              Some n \<Rightarrow> Inr n
            | None \<Rightarrow> Inl (InvalidNumber 10 num_str)))"

text \<open>
  The dict displays of \<^verbatim>\<open>assemble\<close>: the values are evaluated in the order written, so
  the first \<^verbatim>\<open>_parse_number\<close> that raises ends the evaluation.
\<close>

definition command2 :: "int \<Rightarrow> string \<Rightarrow> string \<Rightarrow> error + ir" where
  "command2 opcode a0 a1 =
     (case parse_number a0 of Inl e \<Rightarrow> Inl e | Inr b \<Rightarrow>
      case parse_number a1 of Inl e \<Rightarrow> Inl e | Inr c \<Rightarrow>
        Inr [(''A'', opcode), (''B'', b), (''C'', c)])"

definition command4 :: "int \<Rightarrow> string \<Rightarrow> string \<Rightarrow> string \<Rightarrow> string \<Rightarrow> error + ir" where
  "command4 opcode a0 a1 a2 a3 =
     (case parse_number a0 of Inl e \<Rightarrow> Inl e | Inr b \<Rightarrow>
      case parse_number a1 of Inl e \<Rightarrow> Inl e | Inr c \<Rightarrow>
      case parse_number a2 of Inl e \<Rightarrow> Inl e | Inr d \<Rightarrow>
      case parse_number a3 of Inl e \<Rightarrow> Inl e | Inr e' \<Rightarrow>
        Inr [(''A'', opcode), (''B'', b), (''C'', c), (''D'', d), (''E'', e')])"

text \<open>
  One pass of the loop body up to the \<^verbatim>\<open>append\<close>: the membership test, then the
  \<^verbatim>\<open>if/elif\<close> chain. The result \<open>Inr None\<close> is the chain without a matching branch,
  which leaves the local \<^verbatim>\<open>command\<close> as it was.
\<close>

definition build_command :: "assembler \<Rightarrow> string \<Rightarrow> string list \<Rightarrow> error + ir option" where
  "build_command self mnemonic args =
     (case map_of (mnemonics self) mnemonic of
        None \<Rightarrow> Inl (UnknownMnemonic mnemonic)
      | Some opcode \<Rightarrow>
          if mnemonic = ''LOAD_CONST'' then
            (case args of
               [a0, a1] \<Rightarrow> map_sum id Some (command2 opcode a0 a1)
             | _ \<Rightarrow> Inl (ArityMismatch ''LOAD_CONST'' 2))
          else if mnemonic = ''STORE'' then
            (case args of
               [a0, a1] \<Rightarrow> map_sum id Some (command2 opcode a0 a1)
             | _ \<Rightarrow> Inl (ArityMismatch ''STORE'' 2))
          else if mnemonic = ''BINARY_OP'' then
            (case args of
               [a0, a1, a2, a3] \<Rightarrow> map_sum id Some (command4 opcode a0 a1 a2 a3)
             | _ \<Rightarrow> Inl (ArityMismatch ''BINARY_OP'' 4))
          else Inr None)"

text \<open>
  The loop of \<^verbatim>\<open>assemble\<close>, with the local \<^verbatim>\<open>command\<close> (\<open>None\<close> while unbound) and the
  list built so far.
\<close>

fun assemble_loop ::
  "assembler \<Rightarrow> ir option \<Rightarrow> parsed list \<Rightarrow> ir list \<Rightarrow> error + ir list" where
  "assemble_loop self command [] intermediate_representation =
     Inr intermediate_representation"
| "assemble_loop self command ((mnemonic, args) # rest) intermediate_representation =
     (case build_command self mnemonic args of
        Inl e \<Rightarrow> Inl e
      | Inr built \<Rightarrow>
          (case (case built of Some c \<Rightarrow> Some c | None \<Rightarrow> command) of
             None \<Rightarrow> Inl UnboundLocalError
           | Some c \<Rightarrow>
               assemble_loop self (Some c) rest (intermediate_representation @ [c])))"

definition assemble :: "assembler \<Rightarrow> string \<Rightarrow> error + ir list" where
  "assemble self source_code =
     (case parse_source source_code of
        Inl e \<Rightarrow> Inl e
      | Inr parsed_commands \<Rightarrow> assemble_loop self None parsed_commands [])"

subsection \<open>A call as a transformer of the instance\<close>


subsection \<open>Notions used in the statements and proofs\<close>

text \<open>The instructions that one line contributes to the list of \<^verbatim>\<open>parse_source\<close>.\<close>

definition line_commands :: "string \<Rightarrow> parsed list" where
  "line_commands line = (case parse_line line of Inr (Some parsed) \<Rightarrow> [parsed] | _ \<Rightarrow> [])"





section \<open>Properties\<close>

subsection \<open>The mnemonic table of \<^verbatim>\<open>__init__\<close> and the branches of \<^verbatim>\<open>assemble\<close>\<close>

lemma mnemonics_init_cases:
  "map_of (mnemonics UVMAssembler_init) m = Some opcode \<longleftrightarrow>
     (m = ''LOAD_CONST'' \<and> opcode = 20) \<or> (m = ''STORE'' \<and> opcode = 12)
     \<or> (m = ''BINARY_OP'' \<and> opcode = 19)"
  by (auto simp: UVMAssembler_init_def split: if_splits)


lemma build_command_LOAD_CONST:
  "build_command UVMAssembler_init ''LOAD_CONST'' args =
     (case args of
        [a0, a1] \<Rightarrow> map_sum id Some (command2 20 a0 a1)
      | _ \<Rightarrow> Inl (ArityMismatch ''LOAD_CONST'' 2))"
  by (simp add: build_command_def UVMAssembler_init_def)

lemma build_command_STORE:
  "build_command UVMAssembler_init ''STORE'' args =
     (case args of
        [a0, a1] \<Rightarrow> map_sum id Some (command2 12 a0 a1)
      | _ \<Rightarrow> Inl (ArityMismatch ''STORE'' 2))"
  by (simp add: build_command_def UVMAssembler_init_def)

lemma build_command_BINARY_OP:
  "build_command UVMAssembler_init ''BINARY_OP'' args =
     (case args of
        [a0, a1, a2, a3] \<Rightarrow> map_sum id Some (command4 19 a0 a1 a2 a3)
      | _ \<Rightarrow> Inl (ArityMismatch ''BINARY_OP'' 4))"
  by (simp add: build_command_def UVMAssembler_init_def)

lemma build_command_unknown:
  "map_of (mnemonics UVMAssembler_init) m = None \<Longrightarrow>
     build_command UVMAssembler_init m args = Inl (UnknownMnemonic m)"
  by (simp add: build_command_def)

lemma length_2_iff: "length xs = 2 \<longleftrightarrow> (\<exists>a b. xs = [a, b])"
  by (cases xs; cases "tl xs"; cases "tl (tl xs)") auto

lemma length_4_iff: "length xs = 4 \<longleftrightarrow> (\<exists>a b c d. xs = [a, b, c, d])"
proof
  assume "length xs = 4"
  then obtain a ys where xs: "xs = a # ys" and "length ys = 3" by (cases xs) auto
  then obtain b zs where ys: "ys = b # zs" and "length zs = 2" by (cases ys) auto
  then obtain c d where "zs = [c, d]" by (auto simp: length_2_iff)
  with xs ys show "\<exists>a b c d. xs = [a, b, c, d]" by blast
qed auto

lemma build_command_well_formed:
  assumes "map_of (mnemonics UVMAssembler_init) m = Some opcode"
    and "length args = (if m = ''BINARY_OP'' then 4 else 2)"
    and "map parse_number args = map Inr vs"
  shows "build_command UVMAssembler_init m args =
           Inr (Some ((''A'', opcode) # zip [''B'', ''C'', ''D'', ''E''] vs))"
proof -
  from assms(1) consider "m = ''LOAD_CONST''" "opcode = 20" | "m = ''STORE''" "opcode = 12"
    | "m = ''BINARY_OP''" "opcode = 19"
    by (auto simp: mnemonics_init_cases)
  then show ?thesis
  proof cases
    case 1
    with assms(2) obtain a b where "args = [a, b]" by (auto simp: length_2_iff)
    with assms(3) 1 show ?thesis
      by (cases vs; cases "tl vs") (auto simp: build_command_LOAD_CONST command2_def)
  next
    case 2
    with assms(2) obtain a b where "args = [a, b]" by (auto simp: length_2_iff)
    with assms(3) 2 show ?thesis
      by (cases vs; cases "tl vs") (auto simp: build_command_STORE command2_def)
  next
    case 3
    with assms(2) obtain a b c d where "args = [a, b, c, d]" by (auto simp: length_4_iff)
    with assms(3) 3 show ?thesis
      by (cases vs; cases "tl vs"; cases "tl (tl vs)"; cases "tl (tl (tl vs))")
         (auto simp: build_command_BINARY_OP command4_def)
  qed
qed

lemma parse_number_error:
  "parse_number s = Inl e \<Longrightarrow>
     e = InvalidNumber 10 (py_strip s) \<or> e = InvalidNumber 16 (drop 2 (py_strip s))"
  by (auto simp: parse_number_def Let_def split: if_splits option.splits)

lemma build_command_init_Inr:
  assumes "build_command UVMAssembler_init m args = Inr x"
  shows "\<exists>r opcode. x = Some r \<and> map_of (mnemonics UVMAssembler_init) m = Some opcode
           \<and> map_of r ''A'' = Some opcode
           \<and> map fst r = (if opcode = 19 then [''A'', ''B'', ''C'', ''D'', ''E'']
                           else [''A'', ''B'', ''C''])"
proof (cases "map_of (mnemonics UVMAssembler_init) m")
  case None
  with assms show ?thesis by (simp add: build_command_unknown)
next
  case (Some opcode)
  then consider "m = ''LOAD_CONST''" "opcode = 20" | "m = ''STORE''" "opcode = 12"
    | "m = ''BINARY_OP''" "opcode = 19"
    by (auto simp: mnemonics_init_cases)
  then show ?thesis
  proof cases
    case 1
    with assms Some show ?thesis
      by (auto simp: build_command_LOAD_CONST command2_def split: list.splits sum.splits)
  next
    case 2
    with assms Some show ?thesis
      by (auto simp: build_command_STORE command2_def split: list.splits sum.splits)
  next
    case 3
    with assms Some show ?thesis
      by (auto simp: build_command_BINARY_OP command4_def split: list.splits sum.splits)
  qed
qed

lemma assemble_loop_init_Inr:
  "assemble_loop UVMAssembler_init command cmds acc = Inr recs \<longleftrightarrow>
     (\<exists>new. recs = acc @ new
        \<and> list_all2 (\<lambda>p r. build_command UVMAssembler_init (fst p) (snd p) = Inr (Some r))
             cmds new)"
proof (induction cmds arbitrary: command acc)
  case Nil
  then show ?case by auto
next
  case (Cons p cmds)
  obtain m args where p: "p = (m, args)" by (cases p)
  show ?case
  proof (cases "build_command UVMAssembler_init m args")
    case (Inl e)
    then show ?thesis by (auto simp: p list_all2_Cons1)
  next
    case (Inr x)
    then obtain r where x: "x = Some r" using build_command_init_Inr by blast
    show ?thesis
      using Inr by (auto simp: p x Cons.IH list_all2_Cons1)
  qed
qed

lemma assemble_loop_init_first_error:
  assumes "\<forall>p\<in>set pre. \<not> isl (build_command UVMAssembler_init (fst p) (snd p))"
    and "build_command UVMAssembler_init m args = Inl e"
  shows "assemble_loop UVMAssembler_init command (pre @ (m, args) # post) acc = Inl e"
  using assms(1)
proof (induction pre arbitrary: command acc)
  case Nil
  then show ?case using assms(2) by simp
next
  case (Cons p pre)
  obtain m' args' where p: "p = (m', args')" by (cases p)
  from Cons.prems obtain x where x: "build_command UVMAssembler_init m' args' = Inr x"
    by (cases "build_command UVMAssembler_init m' args'") (auto simp: p)
  then obtain r where "x = Some r" using build_command_init_Inr by blast
  with x Cons show ?case by (simp add: p)
qed

subsection \<open>Whitespace, \<^verbatim>\<open>strip\<close> and \<^verbatim>\<open>split\<close>\<close>

lemma rstrip_prefix:
  "s = rev (dropWhile P (rev s)) @ rev (takeWhile P (rev s))"
proof -
  have "rev (dropWhile P (rev s)) @ rev (takeWhile P (rev s))
          = rev (takeWhile P (rev s) @ dropWhile P (rev s))"
    by (simp only: rev_append)
  also have "\<dots> = s" by (simp only: takeWhile_dropWhile_id rev_rev_ident)
  finally show ?thesis by simp
qed

lemma py_strip_eq_Nil: "py_strip s = [] \<longleftrightarrow> (\<forall>x\<in>set s. py_isspace x)"
proof -
  have "py_strip s = [] \<longleftrightarrow> (\<forall>x\<in>set (dropWhile py_isspace s). py_isspace x)"
    by (simp add: py_strip_def dropWhile_eq_Nil_conv)
  also have "\<dots> \<longleftrightarrow> dropWhile py_isspace s = []"
    by (metis empty_iff empty_set hd_dropWhile list.set_sel(1))
  also have "\<dots> \<longleftrightarrow> (\<forall>x\<in>set s. py_isspace x)"
    by (simp add: dropWhile_eq_Nil_conv)
  finally show ?thesis .
qed

lemma py_strip_hd:
  assumes "py_strip s \<noteq> []"
  shows "\<not> py_isspace (hd (py_strip s))"
proof -
  let ?t = "dropWhile py_isspace s"
  have t: "?t \<noteq> []"
  proof
    assume "?t = []"
    then have "py_strip s = []" by (simp only: py_strip_def rev.simps(1) dropWhile.simps(1))
    with assms show False by simp
  qed
  then have h: "\<not> py_isspace (hd ?t)" by (rule hd_dropWhile)
  have "?t = py_strip s @ rev (takeWhile py_isspace (rev ?t))"
    unfolding py_strip_def by (rule rstrip_prefix)
  with assms have "hd ?t = hd (py_strip s)" by (metis hd_append2)
  with h show ?thesis by simp
qed

lemma py_strip_nonspace_hd:
  assumes c: "\<not> py_isspace c"
  shows "\<exists>u. py_strip (c # cs) = c # u"
proof -
  have ne: "py_strip (c # cs) \<noteq> []" using c by (auto simp: py_strip_eq_Nil)
  have e: "py_strip (c # cs) = rev (dropWhile py_isspace (rev (c # cs)))"
    using c by (simp add: py_strip_def)
  have "c # cs = py_strip (c # cs) @ rev (takeWhile py_isspace (rev (c # cs)))"
    unfolding e by (rule rstrip_prefix)
  with ne show ?thesis by (metis hd_append2 list.sel(1) list.exhaust_sel)
qed

lemma py_split_sep_first:
  "(case py_split_sep sep s of p # _ \<Rightarrow> p | [] \<Rightarrow> []) = takeWhile (\<lambda>x. x \<noteq> sep) s"
  by (induction s) (auto split: list.splits)

lemma py_split_ws_eq_Nil: "py_split_ws s = [] \<longleftrightarrow> (\<forall>x\<in>set s. py_isspace x)"
  by (induction s rule: py_split_ws.induct) auto


lemma parse_line_total: "\<exists>r. parse_line line = Inr r"
proof (cases "py_strip line = [] \<or> py_startswith (py_strip line) '';''")
  case True
  then show ?thesis by (auto simp: parse_line_def)
next
  case False
  then have ne: "py_strip line \<noteq> []" by simp
  then obtain c cs where l: "py_strip line = c # cs" by (cases "py_strip line") auto
  with py_strip_hd [OF ne] have c: "\<not> py_isspace c" by simp
  from False l have c': "c \<noteq> CHR '';''" by (auto simp: py_startswith_def)
  define line2 where "line2 = (if CHR '';'' \<in> set (py_strip line)
       then py_strip (case py_split_sep (CHR '';'') (py_strip line) of p # _ \<Rightarrow> p | [] \<Rightarrow> [])
       else py_strip line)"
  have "\<exists>u. line2 = c # u"
  proof (cases "CHR '';'' \<in> set (py_strip line)")
    case True
    have "(case py_split_sep (CHR '';'') (py_strip line) of p # _ \<Rightarrow> p | [] \<Rightarrow> [])
            = takeWhile (\<lambda>x. x \<noteq> CHR '';'') (c # cs)"
      by (simp only: py_split_sep_first l)
    also have "\<dots> = c # takeWhile (\<lambda>x. x \<noteq> CHR '';'') cs" using c' by simp
    finally show ?thesis using True py_strip_nonspace_hd [OF c] by (simp add: line2_def)
  next
    case False
    then show ?thesis by (simp add: line2_def l)
  qed
  then have "py_split_ws line2 \<noteq> []" using c by (auto simp: py_split_ws_eq_Nil)
  then obtain p0 ps where "py_split_ws line2 = p0 # ps" by (cases "py_split_ws line2") auto
  with False show ?thesis
    by (simp add: parse_line_def Let_def line2_def [symmetric])
qed

subsection \<open>C1: the records of the three instructions\<close>

text \<open>
  C1. Translating \<^verbatim>\<open>LOAD_CONST 811, 213\<close> gives the single record A = 20, B = 811,
  C = 213; \<^verbatim>\<open>STORE 709, 447\<close> gives A = 12, B = 709, C = 447;
  \<^verbatim>\<open>BINARY_OP 132, 412, 20, 585\<close> gives A = 19, B = 132, C = 412, D = 20, E = 585. In
  general, for a mnemonic of the table with the number of arguments its branch asks for,
  all of them decodable, the loop appends one record whose field A is the opcode of
  the table and whose fields B, C (and D, E) are the decoded arguments in their order.
\<close>

theorem C1_fixed_opcode_records:
  "assemble UVMAssembler_init ''LOAD_CONST 811, 213''
     = Inr [[(''A'', 20), (''B'', 811), (''C'', 213)]]
   \<and> assemble UVMAssembler_init ''STORE 709, 447''
     = Inr [[(''A'', 12), (''B'', 709), (''C'', 447)]]
   \<and> assemble UVMAssembler_init ''BINARY_OP 132, 412, 20, 585''
     = Inr [[(''A'', 19), (''B'', 132), (''C'', 412), (''D'', 20), (''E'', 585)]]
   \<and> (\<forall>m opcode args vs.
        map_of (mnemonics UVMAssembler_init) m = Some opcode
        \<and> length args = (if m = ''BINARY_OP'' then 4 else 2)
        \<and> map parse_number args = map Inr vs
        \<longrightarrow> assemble_loop UVMAssembler_init None [(m, args)] []
              = Inr [(''A'', opcode) # zip [''B'', ''C'', ''D'', ''E''] vs])"
proof -
  have "assemble UVMAssembler_init ''LOAD_CONST 811, 213''
          = Inr [[(''A'', 20), (''B'', 811), (''C'', 213)]]"
    by code_simp
  moreover have "assemble UVMAssembler_init ''STORE 709, 447''
          = Inr [[(''A'', 12), (''B'', 709), (''C'', 447)]]"
    by code_simp
  moreover have "assemble UVMAssembler_init ''BINARY_OP 132, 412, 20, 585''
          = Inr [[(''A'', 19), (''B'', 132), (''C'', 412), (''D'', 20), (''E'', 585)]]"
    by code_simp
  moreover have "assemble_loop UVMAssembler_init None [(m, args)] []
          = Inr [(''A'', opcode) # zip [''B'', ''C'', ''D'', ''E''] vs]"
    if "map_of (mnemonics UVMAssembler_init) m = Some opcode"
      and "length args = (if m = ''BINARY_OP'' then 4 else 2)"
      and "map parse_number args = map Inr vs"
    for m opcode args vs
    using build_command_well_formed [OF that] by simp
  ultimately show ?thesis by blast
qed

theorem C1_fixed_opcode_records_witness:
  "map_of (mnemonics UVMAssembler_init) ''STORE'' = Some 12
   \<and> length [''709'', ''447''] = (if ''STORE'' = ''BINARY_OP'' then 4 else 2)
   \<and> map parse_number [''709'', ''447''] = map Inr [709, 447]
   \<and> assemble_loop UVMAssembler_init None [(''STORE'', [''709'', ''447''])] []
       = Inr [(''A'', 12) # zip [''B'', ''C'', ''D'', ''E''] [709, 447]]"
proof -
  have h1: "map_of (mnemonics UVMAssembler_init) ''STORE'' = Some 12"
    by (simp add: UVMAssembler_init_def)
  have h2: "length [''709'', ''447''] = (if ''STORE'' = ''BINARY_OP'' then 4 else 2)"
    by simp
  have h3: "map parse_number [''709'', ''447''] = map Inr [709, 447]"
    by code_simp
  from C1_fixed_opcode_records h1 h2 h3
  have "assemble_loop UVMAssembler_init None [(''STORE'', [''709'', ''447''])] []
       = Inr [(''A'', 12) # zip [''B'', ''C'', ''D'', ''E''] [709, 447]]"
    by blast
  with h1 h2 h3 show ?thesis by blast
qed

subsection \<open>The lines of a source text and the failures of the loop\<close>

lemma parse_lines_eq:
  "parse_lines n ls acc = Inr (acc @ concat (map line_commands ls))"
proof (induction ls arbitrary: n acc)
  case Nil
  then show ?case by simp
next
  case (Cons l ls)
  obtain r where "parse_line l = Inr r" using parse_line_total by blast
  then show ?case by (cases r) (simp_all add: Cons.IH line_commands_def)
qed

lemma parse_source_eq:
  "parse_source src = Inr (concat (map line_commands (py_split_sep (CHR 0x0A) src)))"
  by (simp add: parse_source_def parse_lines_eq)

lemma build_command_init_Inl:
  assumes "build_command UVMAssembler_init m args = Inl e"
  shows "e = UnknownMnemonic m \<or> (\<exists>n. e = ArityMismatch m n) \<or> (\<exists>b t. e = InvalidNumber b t)"
proof (cases "map_of (mnemonics UVMAssembler_init) m")
  case None
  with assms show ?thesis by (simp add: build_command_unknown)
next
  case (Some opcode)
  then consider "m = ''LOAD_CONST''" | "m = ''STORE''" | "m = ''BINARY_OP''"
    by (auto simp: mnemonics_init_cases)
  then show ?thesis
  proof cases
    case 1
    with assms show ?thesis
      by (auto simp: build_command_LOAD_CONST command2_def
          split: list.splits sum.splits dest: parse_number_error)
  next
    case 2
    with assms show ?thesis
      by (auto simp: build_command_STORE command2_def
          split: list.splits sum.splits dest: parse_number_error)
  next
    case 3
    with assms show ?thesis
      by (auto simp: build_command_BINARY_OP command4_def
          split: list.splits sum.splits dest: parse_number_error)
  qed
qed

lemma assemble_loop_init_Inl:
  "assemble_loop UVMAssembler_init command cmds acc = Inl e \<Longrightarrow>
     \<exists>p\<in>set cmds. build_command UVMAssembler_init (fst p) (snd p) = Inl e"
proof (induction cmds arbitrary: command acc)
  case Nil
  then show ?case by simp
next
  case (Cons p cmds)
  obtain m args where p: "p = (m, args)" by (cases p)
  show ?case
  proof (cases "build_command UVMAssembler_init m args")
    case (Inl e')
    with Cons.prems show ?thesis by (simp add: p)
  next
    case (Inr x)
    then obtain r where x: "x = Some r" using build_command_init_Inr by blast
    with Cons.prems Inr have "assemble_loop UVMAssembler_init (Some r) cmds (acc @ [r]) = Inl e"
      by (simp add: p)
    from Cons.IH [OF this] show ?thesis by simp
  qed
qed

subsection \<open>C10: splitting a line never raises\<close>

text \<open>
  C10. \<^verbatim>\<open>parse_line\<close> is total: for every line it returns nothing or a pair of a mnemonic
  and an argument list, and raises nothing (the list \<^verbatim>\<open>parts\<close> is never empty where
  \<^verbatim>\<open>parts[0]\<close> is read). So the \<^verbatim>\<open>except\<close> branch of \<^verbatim>\<open>parse_source\<close> is never taken:
  \<^verbatim>\<open>parse_source\<close> returns a list for every source text, and no translation fails with
  a \<^verbatim>\<open>SyntaxError\<close>, whatever line number and line text it would carry.
\<close>

theorem C10_parse_line_total:
  "(\<exists>r. parse_line line = Inr r)
   \<and> (\<exists>cmds. parse_source src = Inr cmds)
   \<and> assemble UVMAssembler_init src \<noteq> Inl (SyntaxError n l)"
proof -
  have "assemble UVMAssembler_init src \<noteq> Inl (SyntaxError n l)"
  proof
    assume a: "assemble UVMAssembler_init src = Inl (SyntaxError n l)"
    then obtain p where "build_command UVMAssembler_init (fst p) (snd p) = Inl (SyntaxError n l)"
      by (auto simp: assemble_def parse_source_eq dest: assemble_loop_init_Inl)
    then show False by (auto dest: build_command_init_Inl)
  qed
  then show ?thesis using parse_line_total parse_source_eq by blast
qed

subsection \<open>C2: field A and the set of fields\<close>

text \<open>
  C2. When the translation of a source text succeeds, the records correspond one to one,
  in order, to the parsed instructions; each record has the field A, equal to the opcode
  that the mnemonic table gives for the mnemonic of its instruction, and its fields are
  fixed by that opcode: exactly A, B, C for the opcodes 20 and 12, exactly A, B, C, D, E
  for the opcode 19, and there is no other opcode.
\<close>

theorem C2_record_shape:
  assumes "assemble UVMAssembler_init src = Inr recs"
  shows "\<exists>cmds. parse_source src = Inr cmds \<and> length recs = length cmds
     \<and> (\<forall>i<length recs. \<exists>opcode.
           map_of (mnemonics UVMAssembler_init) (fst (cmds ! i)) = Some opcode
           \<and> map_of (recs ! i) ''A'' = Some opcode
           \<and> (opcode = 20 \<or> opcode = 12 \<or> opcode = 19)
           \<and> map fst (recs ! i) = (if opcode = 19 then [''A'', ''B'', ''C'', ''D'', ''E'']
                                    else [''A'', ''B'', ''C''])
           \<and> dom (map_of (recs ! i)) = (if opcode = 19 then {''A'', ''B'', ''C'', ''D'', ''E''}
                                         else {''A'', ''B'', ''C''}))"
proof -
  obtain cmds where cmds: "parse_source src = Inr cmds" using parse_source_eq by blast
  with assms have "assemble_loop UVMAssembler_init None cmds [] = Inr recs"
    by (simp add: assemble_def)
  then have all2: "list_all2 (\<lambda>p r. build_command UVMAssembler_init (fst p) (snd p) = Inr (Some r))
                     cmds recs"
    by (simp add: assemble_loop_init_Inr)
  then have len: "length recs = length cmds" by (simp add: list_all2_lengthD)
  have "\<exists>opcode.
           map_of (mnemonics UVMAssembler_init) (fst (cmds ! i)) = Some opcode
           \<and> map_of (recs ! i) ''A'' = Some opcode
           \<and> (opcode = 20 \<or> opcode = 12 \<or> opcode = 19)
           \<and> map fst (recs ! i) = (if opcode = 19 then [''A'', ''B'', ''C'', ''D'', ''E'']
                                    else [''A'', ''B'', ''C''])
           \<and> dom (map_of (recs ! i)) = (if opcode = 19 then {''A'', ''B'', ''C'', ''D'', ''E''}
                                         else {''A'', ''B'', ''C''})"
    if i: "i < length recs" for i
  proof -
    from all2 i len
    have "build_command UVMAssembler_init (fst (cmds ! i)) (snd (cmds ! i)) = Inr (Some (recs ! i))"
      by (simp add: list_all2_conv_all_nth)
    from build_command_init_Inr [OF this] obtain opcode where
      o: "map_of (mnemonics UVMAssembler_init) (fst (cmds ! i)) = Some opcode"
      and a: "map_of (recs ! i) ''A'' = Some opcode"
      and k: "map fst (recs ! i) = (if opcode = 19 then [''A'', ''B'', ''C'', ''D'', ''E'']
                                    else [''A'', ''B'', ''C''])"
      by auto
    from o have v: "opcode = 20 \<or> opcode = 12 \<or> opcode = 19"
      by (auto simp: mnemonics_init_cases)
    have "dom (map_of (recs ! i)) = set (map fst (recs ! i))"
      by (simp add: dom_map_of_conv_image_fst)
    with k have "dom (map_of (recs ! i)) = (if opcode = 19 then {''A'', ''B'', ''C'', ''D'', ''E''}
                                         else {''A'', ''B'', ''C''})"
      by (simp split: if_splits)
    with o a k v show ?thesis by blast
  qed
  with cmds len show ?thesis by blast
qed

theorem C2_record_shape_witness:
  "assemble UVMAssembler_init (''LOAD_CONST 1, 2'' @ [CHR 0x0A] @ ''BINARY_OP 3, 4, 5, 6'')
     = Inr [[(''A'', 20), (''B'', 1), (''C'', 2)],
            [(''A'', 19), (''B'', 3), (''C'', 4), (''D'', 5), (''E'', 6)]]
   \<and> (\<exists>cmds. parse_source (''LOAD_CONST 1, 2'' @ [CHR 0x0A] @ ''BINARY_OP 3, 4, 5, 6'') = Inr cmds
         \<and> length cmds = 2)"
proof -
  have h: "assemble UVMAssembler_init (''LOAD_CONST 1, 2'' @ [CHR 0x0A] @ ''BINARY_OP 3, 4, 5, 6'')
     = Inr [[(''A'', 20), (''B'', 1), (''C'', 2)],
            [(''A'', 19), (''B'', 3), (''C'', 4), (''D'', 5), (''E'', 6)]]"
    by code_simp
  from C2_record_shape [OF h] h show ?thesis by auto
qed

subsection \<open>The order of the checks on one instruction\<close>

lemma command2_first_error:
  assumes "i < 2" and "\<forall>j<i. \<exists>v. parse_number ([a0, a1] ! j) = Inr v"
    and "parse_number ([a0, a1] ! i) = Inl e"
  shows "command2 opcode a0 a1 = Inl e"
proof -
  from assms(1) consider "i = 0" | "i = 1" by linarith
  then show ?thesis
  proof cases
    case 1
    with assms(3) show ?thesis by (simp add: command2_def)
  next
    case 2
    with assms(2) have "\<exists>v. parse_number ([a0, a1] ! 0) = Inr v" by simp
    with 2 assms(3) show ?thesis by (auto simp: command2_def)
  qed
qed

lemma command4_first_error:
  assumes "i < 4" and "\<forall>j<i. \<exists>v. parse_number ([a0, a1, a2, a3] ! j) = Inr v"
    and "parse_number ([a0, a1, a2, a3] ! i) = Inl e"
  shows "command4 opcode a0 a1 a2 a3 = Inl e"
proof -
  have pj: "\<exists>v. parse_number ([a0, a1, a2, a3] ! j) = Inr v" if "j < i" for j
    using assms(2) that by blast
  from assms(1) consider "i = 0" | "i = 1" | "i = 2" | "i = 3" by linarith
  then show ?thesis
  proof cases
    case 1
    with assms(3) show ?thesis by (simp add: command4_def)
  next
    case 2
    with pj [of 0] have "\<exists>v. parse_number a0 = Inr v" by simp
    with 2 assms(3) show ?thesis by (auto simp: command4_def)
  next
    case 3
    with pj [of 0] pj [of 1] have "\<exists>v. parse_number a0 = Inr v"
      and "\<exists>v. parse_number a1 = Inr v" by simp_all
    with 3 assms(3) show ?thesis by (auto simp: command4_def)
  next
    case 4
    with pj [of 0] pj [of 1] pj [of 2] have "\<exists>v. parse_number a0 = Inr v"
      and "\<exists>v. parse_number a1 = Inr v" and "\<exists>v. parse_number a2 = Inr v" by simp_all
    with 4 assms(3) show ?thesis by (auto simp: command4_def)
  qed
qed

lemma build_command_arity:
  assumes "map_of (mnemonics UVMAssembler_init) m = Some opcode"
    and "length args \<noteq> (if m = ''BINARY_OP'' then 4 else 2)"
  shows "build_command UVMAssembler_init m args
           = Inl (ArityMismatch m (if m = ''BINARY_OP'' then 4 else 2))"
proof -
  from assms(1) consider "m = ''LOAD_CONST''" | "m = ''STORE''" | "m = ''BINARY_OP''"
    by (auto simp: mnemonics_init_cases)
  then show ?thesis
  proof cases
    case 1
    with assms(2) show ?thesis
      by (auto simp: build_command_LOAD_CONST split: list.splits)
  next
    case 2
    with assms(2) show ?thesis
      by (auto simp: build_command_STORE split: list.splits)
  next
    case 3
    with assms(2) show ?thesis
      by (auto simp: build_command_BINARY_OP split: list.splits)
  qed
qed

lemma build_command_first_error:
  assumes "map_of (mnemonics UVMAssembler_init) m = Some opcode"
    and "length args = (if m = ''BINARY_OP'' then 4 else 2)"
    and "i < length args"
    and "\<forall>j<i. \<exists>v. parse_number (args ! j) = Inr v"
    and "parse_number (args ! i) = Inl e"
  shows "build_command UVMAssembler_init m args = Inl e"
proof -
  from assms(1) consider "m = ''LOAD_CONST''" | "m = ''STORE''" | "m = ''BINARY_OP''"
    by (auto simp: mnemonics_init_cases)
  then show ?thesis
  proof cases
    case 1
    with assms(2) obtain a0 a1 where a: "args = [a0, a1]" by (auto simp: length_2_iff)
    from assms(3-5) have "command2 20 a0 a1 = Inl e"
      unfolding a by (intro command2_first_error [of i]) simp_all
    with 1 a show ?thesis by (simp add: build_command_LOAD_CONST)
  next
    case 2
    with assms(2) obtain a0 a1 where a: "args = [a0, a1]" by (auto simp: length_2_iff)
    from assms(3-5) have "command2 12 a0 a1 = Inl e"
      unfolding a by (intro command2_first_error [of i]) simp_all
    with 2 a show ?thesis by (simp add: build_command_STORE)
  next
    case 3
    with assms(2) obtain a0 a1 a2 a3 where a: "args = [a0, a1, a2, a3]"
      by (auto simp: length_4_iff)
    from assms(3-5) have "command4 19 a0 a1 a2 a3 = Inl e"
      unfolding a by (intro command4_first_error [of i]) simp_all
    with 3 a show ?thesis by (simp add: build_command_BINARY_OP)
  qed
qed

subsection \<open>C3: mnemonic, then argument count, then numbers\<close>

text \<open>
  C3. The checks on a parsed instruction come in a fixed order. A mnemonic that is not in
  the table fails with \<open>UnknownMnemonic\<close> naming it, whatever the arguments are. A
  mnemonic of the table with a wrong number of arguments fails with \<open>ArityMismatch\<close>,
  whatever the arguments are, so before any of them is decoded: \<^verbatim>\<open>LOAD_CONST abc\<close> fails
  with \<open>ArityMismatch\<close>, not with \<open>InvalidNumber\<close>. With the right number of arguments
  they are decoded from left to right: if argument \<open>i\<close> is the first that does not
  decode, the instruction fails with the \<open>InvalidNumber\<close> error of that argument.
\<close>

theorem C3_validation_order:
  "(\<forall>m args. map_of (mnemonics UVMAssembler_init) m = None
       \<longrightarrow> build_command UVMAssembler_init m args = Inl (UnknownMnemonic m))
   \<and> (\<forall>m opcode args.
         map_of (mnemonics UVMAssembler_init) m = Some opcode
         \<and> length args \<noteq> (if m = ''BINARY_OP'' then 4 else 2)
       \<longrightarrow> build_command UVMAssembler_init m args
             = Inl (ArityMismatch m (if m = ''BINARY_OP'' then 4 else 2)))
   \<and> assemble UVMAssembler_init ''LOAD_CONST abc'' = Inl (ArityMismatch ''LOAD_CONST'' 2)
   \<and> (\<forall>m opcode args i e.
         map_of (mnemonics UVMAssembler_init) m = Some opcode
         \<and> length args = (if m = ''BINARY_OP'' then 4 else 2)
         \<and> i < length args
         \<and> (\<forall>j<i. \<exists>v. parse_number (args ! j) = Inr v)
         \<and> parse_number (args ! i) = Inl e
       \<longrightarrow> build_command UVMAssembler_init m args = Inl e
           \<and> (e = InvalidNumber 10 (py_strip (args ! i))
                \<or> e = InvalidNumber 16 (drop 2 (py_strip (args ! i)))))"
proof -
  have "assemble UVMAssembler_init ''LOAD_CONST abc'' = Inl (ArityMismatch ''LOAD_CONST'' 2)"
    by code_simp
  then show ?thesis
    using build_command_unknown build_command_arity build_command_first_error
      parse_number_error
    by (intro conjI allI impI) (blast | simp)+
qed

theorem C3_validation_order_witness:
  "map_of (mnemonics UVMAssembler_init) ''JUMP'' = None
   \<and> build_command UVMAssembler_init ''JUMP'' [''x''] = Inl (UnknownMnemonic ''JUMP'')
   \<and> map_of (mnemonics UVMAssembler_init) ''STORE'' = Some 12
   \<and> length [''x'', ''1'', ''y''] \<noteq> (if ''STORE'' = ''BINARY_OP'' then 4 else 2)
   \<and> build_command UVMAssembler_init ''STORE'' [''x'', ''1'', ''y'']
        = Inl (ArityMismatch ''STORE'' 2)
   \<and> 1 < length [''1'', ''x'']
   \<and> parse_number ([''1'', ''x''] ! 0) = Inr 1
   \<and> parse_number ([''1'', ''x''] ! 1) = Inl (InvalidNumber 10 ''x'')
   \<and> build_command UVMAssembler_init ''STORE'' [''1'', ''x''] = Inl (InvalidNumber 10 ''x'')"
proof -
  have h1: "map_of (mnemonics UVMAssembler_init) ''JUMP'' = None"
    by (simp add: UVMAssembler_init_def)
  have h2: "map_of (mnemonics UVMAssembler_init) ''STORE'' = Some 12"
    by (simp add: UVMAssembler_init_def)
  have h3: "length [''x'', ''1'', ''y''] \<noteq> (if ''STORE'' = ''BINARY_OP'' then 4 else 2)"
    by simp
  have h4: "length [''1'', ''x''] = (if ''STORE'' = ''BINARY_OP'' then 4 else 2)"
    by simp
  have h5: "(1::nat) < length [''1'', ''x'']" by simp
  have p0: "parse_number ''1'' = Inr 1" by code_simp
  have h6: "\<forall>j<1. \<exists>v. parse_number ([''1'', ''x''] ! j) = Inr v"
    using p0 by simp
  have h7: "parse_number ([''1'', ''x''] ! 1) = Inl (InvalidNumber 10 ''x'')"
    by code_simp
  note c = C3_validation_order
  from c h1 have r1: "build_command UVMAssembler_init ''JUMP'' [''x''] = Inl (UnknownMnemonic ''JUMP'')"
    by blast
  from c h2 h3 have r2: "build_command UVMAssembler_init ''STORE'' [''x'', ''1'', ''y'']
        = Inl (ArityMismatch ''STORE'' (if ''STORE'' = ''BINARY_OP'' then 4 else 2))"
    by blast
  from c h2 h4 h5 h6 h7
  have r3: "build_command UVMAssembler_init ''STORE'' [''1'', ''x''] = Inl (InvalidNumber 10 ''x'')"
    by blast
  from h1 h2 h3 h5 p0 h7 r1 r2 r3 show ?thesis by simp
qed

subsection \<open>C5: the first invalid instruction ends the translation\<close>

text \<open>
  C5. Every source text parses to a list of instructions. If one of them is invalid (its
  record cannot be built), the list splits at the first invalid instruction: all
  instructions before it are valid, and the translation fails as a whole with the one
  error of that instruction. The result is that error and no list of records, and it is
  the same whatever follows the invalid instruction, so that no later instruction has
  any part in it.
\<close>

theorem C5_fail_fast:
  "\<exists>cmds. parse_source src = Inr cmds
     \<and> ((\<exists>p\<in>set cmds. isl (build_command UVMAssembler_init (fst p) (snd p)))
          \<longrightarrow> (\<exists>pre m args post e.
                 cmds = pre @ (m, args) # post
                 \<and> (\<forall>p\<in>set pre. \<not> isl (build_command UVMAssembler_init (fst p) (snd p)))
                 \<and> build_command UVMAssembler_init m args = Inl e
                 \<and> assemble UVMAssembler_init src = Inl e
                 \<and> (\<forall>post'. assemble_loop UVMAssembler_init None (pre @ (m, args) # post') []
                                = Inl e)))"
proof -
  obtain cmds where cmds: "parse_source src = Inr cmds" using parse_source_eq by blast
  have "\<exists>pre m args post e.
          cmds = pre @ (m, args) # post
          \<and> (\<forall>p\<in>set pre. \<not> isl (build_command UVMAssembler_init (fst p) (snd p)))
          \<and> build_command UVMAssembler_init m args = Inl e
          \<and> assemble UVMAssembler_init src = Inl e
          \<and> (\<forall>post'. assemble_loop UVMAssembler_init None (pre @ (m, args) # post') [] = Inl e)"
    if "\<exists>p\<in>set cmds. isl (build_command UVMAssembler_init (fst p) (snd p))"
  proof -
    from split_list_first_prop [OF that] obtain pre p post where
      c: "cmds = pre @ p # post"
      and bad: "isl (build_command UVMAssembler_init (fst p) (snd p))"
      and good: "\<forall>q\<in>set pre. \<not> isl (build_command UVMAssembler_init (fst q) (snd q))"
      by blast
    obtain m args where p: "p = (m, args)" by (cases p)
    from bad obtain e where e: "build_command UVMAssembler_init m args = Inl e"
      by (cases "build_command UVMAssembler_init m args") (auto simp: p)
    have loop: "assemble_loop UVMAssembler_init None (pre @ (m, args) # post') [] = Inl e"
      for post'
      using good e by (rule assemble_loop_init_first_error)
    then have "assemble UVMAssembler_init src = Inl e"
      by (simp add: assemble_def cmds c p)
    with c p good e loop show ?thesis by blast
  qed
  with cmds show ?thesis by blast
qed

theorem C5_fail_fast_witness:
  "parse_source (''STORE 1, 2'' @ [CHR 0x0A] @ ''JUMP 1'' @ [CHR 0x0A] @ ''STORE 3, 4'')
     = Inr [(''STORE'', [''1'', ''2'']), (''JUMP'', [''1'']), (''STORE'', [''3'', ''4''])]
   \<and> isl (build_command UVMAssembler_init ''JUMP'' [''1''])
   \<and> (\<exists>e. assemble UVMAssembler_init
              (''STORE 1, 2'' @ [CHR 0x0A] @ ''JUMP 1'' @ [CHR 0x0A] @ ''STORE 3, 4'') = Inl e)"
proof -
  let ?src = "''STORE 1, 2'' @ [CHR 0x0A] @ ''JUMP 1'' @ [CHR 0x0A] @ ''STORE 3, 4''"
  have h1: "parse_source ?src
     = Inr [(''STORE'', [''1'', ''2'']), (''JUMP'', [''1'']), (''STORE'', [''3'', ''4''])]"
    by code_simp
  have h2: "isl (build_command UVMAssembler_init ''JUMP'' [''1''])"
    by code_simp
  from C5_fail_fast [of ?src] h1 h2
  have "\<exists>e. assemble UVMAssembler_init ?src = Inl e"
    by fastforce
  with h1 h2 show ?thesis by blast
qed

subsection \<open>C6: what the arity error carries\<close>

text \<open>
  C6, as stated, fails: the arity error does not carry the number of arguments
  supplied. \<^verbatim>\<open>LOAD_CONST 1\<close> has one argument and \<^verbatim>\<open>LOAD_CONST 1, 2, 3\<close> has three, and
  both fail with the same error, the fixed message of \<^verbatim>\<open>LOAD_CONST\<close>.
\<close>

theorem C6_arity_error_counterexample:
  "parse_source ''LOAD_CONST 1'' = Inr [(''LOAD_CONST'', [''1''])]
   \<and> parse_source ''LOAD_CONST 1, 2, 3'' = Inr [(''LOAD_CONST'', [''1'', ''2'', ''3''])]
   \<and> length [''1''] \<noteq> length [''1'', ''2'', ''3'']
   \<and> assemble UVMAssembler_init ''LOAD_CONST 1'' = Inl (ArityMismatch ''LOAD_CONST'' 2)
   \<and> assemble UVMAssembler_init ''LOAD_CONST 1, 2, 3'' = Inl (ArityMismatch ''LOAD_CONST'' 2)"
proof -
  have "parse_source ''LOAD_CONST 1'' = Inr [(''LOAD_CONST'', [''1''])]" by code_simp
  moreover have "parse_source ''LOAD_CONST 1, 2, 3'' = Inr [(''LOAD_CONST'', [''1'', ''2'', ''3''])]"
    by code_simp
  moreover have "assemble UVMAssembler_init ''LOAD_CONST 1'' = Inl (ArityMismatch ''LOAD_CONST'' 2)"
    by code_simp
  moreover have "assemble UVMAssembler_init ''LOAD_CONST 1, 2, 3''
                   = Inl (ArityMismatch ''LOAD_CONST'' 2)"
    by code_simp
  ultimately show ?thesis by simp
qed

text \<open>
  C6, amended. For every instruction whose mnemonic is in the table and whose number of
  arguments is not the one its branch requires, the error is the \<open>ArityMismatch\<close> of
  that mnemonic with the required number; it is the same error for every wrong number of
  arguments, so it does not tell how many were supplied.
\<close>

theorem C6_arity_error:
  assumes "map_of (mnemonics UVMAssembler_init) m = Some opcode"
    and "length args \<noteq> (if m = ''BINARY_OP'' then 4 else 2)"
  shows "\<exists>expected. build_command UVMAssembler_init m args = Inl (ArityMismatch m expected)
           \<and> expected = (if m = ''BINARY_OP'' then 4 else 2)
           \<and> (\<forall>args'. length args' \<noteq> expected
                 \<longrightarrow> build_command UVMAssembler_init m args'
                       = build_command UVMAssembler_init m args)"
  using build_command_arity [OF assms(1)] assms(2) by simp

theorem C6_arity_error_witness:
  "map_of (mnemonics UVMAssembler_init) ''BINARY_OP'' = Some 19
   \<and> length [''1'', ''2''] \<noteq> (if ''BINARY_OP'' = ''BINARY_OP'' then 4 else 2)
   \<and> build_command UVMAssembler_init ''BINARY_OP'' [''1'', ''2'']
        = Inl (ArityMismatch ''BINARY_OP'' 4)
   \<and> length [''7''] \<noteq> (4::nat)
   \<and> build_command UVMAssembler_init ''BINARY_OP'' [''7'']
        = build_command UVMAssembler_init ''BINARY_OP'' [''1'', ''2'']"
proof -
  have h1: "map_of (mnemonics UVMAssembler_init) ''BINARY_OP'' = Some 19"
    by (simp add: UVMAssembler_init_def)
  have h2: "length [''1'', ''2''] \<noteq> (if ''BINARY_OP'' = ''BINARY_OP'' then 4 else 2)"
    by simp
  have h3: "length [''7''] \<noteq> (4::nat)" by simp
  from C6_arity_error [OF h1 h2] h3
  have "build_command UVMAssembler_init ''BINARY_OP'' [''1'', ''2'']
          = Inl (ArityMismatch ''BINARY_OP'' 4)
        \<and> build_command UVMAssembler_init ''BINARY_OP'' [''7'']
          = build_command UVMAssembler_init ''BINARY_OP'' [''1'', ''2'']"
    by auto
  with h1 h2 h3 show ?thesis by blast
qed


subsection \<open>C9: no state between calls; sources without instructions\<close>



subsection \<open>Digits and the conversion of digit strings\<close>















subsection \<open>C4: decoding an argument\<close>




subsection \<open>\<^verbatim>\<open>parse_line\<close> through the text before the comment\<close>






subsection \<open>A comment appended to a line\<close>




subsection \<open>Upper case and the first token of a line\<close>












subsection \<open>The lines of a source text\<close>








subsection \<open>C8: trailing comments, the case of the mnemonic, lines without instruction\<close>




subsection \<open>The last token of a line and an empty last argument\<close>















subsection \<open>C7: extra whitespace and a trailing comma in the argument list\<close>




end
